theory Spec2Isabelle
  imports Main
begin

section \<open>JavaScript values, envelopes and errors\<close>

text \<open>
  The transport of \<^verbatim>\<open>SocketTransport.ts\<close> is checked at run time, not at the level of its
  TypeScript annotations: \<^verbatim>\<open>send\<close> and the constructor test their arguments with
  \<^verbatim>\<open>!x || typeof x !== "string"\<close>, and \<^verbatim>\<open>JSON.parse\<close> hands back whatever the peer sent.
  Arguments are therefore JavaScript values: \<^verbatim>\<open>undefined\<close>, a JSON value (which also stands
  for an object that serialises to it), a BigInt, a symbol, a function, or an object that
  \<^verbatim>\<open>JSON.stringify\<close> cannot serialise (a cyclic one, or one whose \<^verbatim>\<open>toJSON\<close> throws). The
  numeric value of a number never influences a branch of the transport (every test on a
  topic or url asks whether it is a non-empty string), so numbers are kept as integers.
\<close>

datatype json =
    JNull
  | JBool bool
  | JNum int
  | JStr string
  | JArr "json list"
  | JObj "(string \<times> json) list"

datatype jsval =
    Undefined
  | Defined json
  | BigInt int
  | Symbol
  | Function
  | Unserialisable_object

text \<open>JavaScript's \<^verbatim>\<open>ToBoolean\<close> (what \<^verbatim>\<open>!x\<close> negates) and \<^verbatim>\<open>typeof\<close>.\<close>

fun truthy :: "jsval \<Rightarrow> bool" where
  "truthy Undefined = False"
| "truthy (Defined JNull) = False"
| "truthy (Defined (JBool b)) = b"
| "truthy (Defined (JNum n)) = (n \<noteq> 0)"
| "truthy (Defined (JStr s)) = (s \<noteq> [])"
| "truthy (Defined (JArr xs)) = True"
| "truthy (Defined (JObj kvs)) = True"
| "truthy (BigInt n) = (n \<noteq> 0)"
| "truthy Symbol = True"
| "truthy Function = True"
| "truthy Unserialisable_object = True"

fun typeof :: "jsval \<Rightarrow> string" where
  "typeof Undefined = ''undefined''"
| "typeof (Defined JNull) = ''object''"
| "typeof (Defined (JBool b)) = ''boolean''"
| "typeof (Defined (JNum n)) = ''number''"
| "typeof (Defined (JStr s)) = ''string''"
| "typeof (Defined (JArr xs)) = ''object''"
| "typeof (Defined (JObj kvs)) = ''object''"
| "typeof (BigInt n) = ''bigint''"
| "typeof Symbol = ''symbol''"
| "typeof Function = ''function''"
| "typeof Unserialisable_object = ''object''"

text \<open>
  \<^verbatim>\<open>ISocketMessage\<close>: the envelope \<^verbatim>\<open>{topic, type, payload, silent}\<close>. The topic is whatever
  value the caller or the peer supplied.
\<close>

record envelope =
  topic :: jsval
  type :: string
  payload :: string
  silent :: bool

text \<open>
  \<^verbatim>\<open>JSON.stringify(socketMessage)\<close>: the text handed to \<^verbatim>\<open>WebSocket.send\<close>. The call throws a
  TypeError when a member is a BigInt or an object it cannot serialise; the type, the
  payload and the silent flag are strings and a boolean, so only the topic can do that.
  An undefined, symbol or function member is left out of the text. The text itself is
  kept symbolic (\<open>JSON_stringify m\<close>); what matters to the transport is which envelope was
  serialised.
\<close>

datatype wire = JSON_stringify envelope

fun serialisable :: "jsval \<Rightarrow> bool" where
  "serialisable Undefined = True"
| "serialisable (Defined v) = True"
| "serialisable (BigInt n) = False"
| "serialisable Symbol = True"
| "serialisable Function = True"
| "serialisable Unserialisable_object = False"

definition stringify :: "envelope \<Rightarrow> wire option" where
  "stringify m = (if serialisable (topic m) then Some (JSON_stringify m) else None)"

datatype error =
    Missing_or_invalid_WebSocket_url
  | Missing_or_invalid_topic_field
  | Failed_to_create_socket
  | TypeError
  | SyntaxError

section \<open>The WebSocket objects and the transport state\<close>

text \<open>
  Each WebSocket created by the transport carries the same \<^verbatim>\<open>onmessage\<close>, \<^verbatim>\<open>onopen\<close> and
  \<^verbatim>\<open>onerror\<close> handlers for its whole life; only \<^verbatim>\<open>onclose\<close> is reassigned. A fresh socket has
  no close handler, \<^verbatim>\<open>_socketCreate\<close> installs the retrying one (lines 156-159) and
  \<^verbatim>\<open>_socketClose\<close> the empty one (lines 172-174).
\<close>

datatype close_handler = No_handler | Retry_handler | Noop_handler

record websocket =
  readyState :: nat
  onclose :: close_handler
  sent :: "wire list"

text \<open>
  The configuration object, and with it the one fact about the environment that depends
  on it: whether \<^verbatim>\<open>new WebSocket\<close> accepts the url that \<^verbatim>\<open>getWebSocketUrl\<close> builds from \<^verbatim>\<open>url\<close>.
  The constructor of the transport accepts any non-empty string; the WebSocket
  constructor throws a SyntaxError on a string that is no WebSocket URL.
\<close>

record options =
  opt_protocol :: string
  opt_version :: int
  opt_url :: jsval
  opt_subscriptions :: "string list option"
  websocket_accepts_url :: bool

datatype callback_arg = Message_arg json | Error_arg nat

text \<open>
  The fields \<open>opts\<close> to \<open>subscriptions\<close> are the private fields of the class
  (\<^verbatim>\<open>_socket\<close> is \<open>socket\<close>, and so on). The rest is the part of the JavaScript heap and
  event loop the transport acts on:
  \<^item> \<open>arrays\<close> holds the array objects; \<open>queue\<close> is the reference held by \<^verbatim>\<open>_queue\<close>, so that
    two names for one array (line 241) are one address;
  \<^item> \<open>sockets\<close> holds the WebSocket objects, a handle being the index of its creation;
  \<^item> \<open>timers\<close> counts the \<^verbatim>\<open>setTimeout(this._socketCreate, 500)\<close> callbacks not yet run;
  \<^item> \<open>calls\<close> logs the invocations of listeners registered with \<^verbatim>\<open>on\<close>: listeners are
    the caller's code, assumed to return and not to call back into the transport.
  The network monitor is an external collaborator: its "online" signal is an event of the
  environment (see \<open>step\<close>).
\<close>

record transport =
  opts :: options
  protocol :: string
  version :: int
  url :: jsval
  socket :: "nat option"
  nextSocket :: "nat option"
  queue :: nat
  events :: "(string \<times> nat) list"
  subscriptions :: "string list"
  arrays :: "nat \<Rightarrow> envelope list"
  narrays :: nat
  sockets :: "nat \<Rightarrow> websocket"
  nsockets :: nat
  timers :: nat
  calls :: "(nat \<times> callback_arg) list"

text \<open>A call either returns or throws; either way it leaves a state behind.\<close>

datatype outcome = Done transport | Thrown error transport

fun state_of :: "outcome \<Rightarrow> transport" where
  "state_of (Done t) = t"
| "state_of (Thrown e t) = t"

fun throws :: "outcome \<Rightarrow> bool" where
  "throws (Done t) = False"
| "throws (Thrown e t) = True"

definition the_queue :: "transport \<Rightarrow> envelope list" where
  "the_queue t = arrays t (queue t)"

section \<open>The WebSocket API as the transport uses it\<close>

text \<open>
  \<^verbatim>\<open>new WebSocket(url)\<close> (line 142) throws a SyntaxError when the constructor does not accept
  the url. Otherwise it evaluates, as every \<^verbatim>\<open>new\<close> expression that returns, to an object:
  here a socket in state CONNECTING (0) with nothing sent and no close handler.
\<close>

definition new_WebSocket :: "transport \<Rightarrow> error + nat option \<times> transport" where
  "new_WebSocket t =
     (if \<not> websocket_accepts_url (opts t) then Inl SyntaxError
      else Inr (Some (nsockets t),
                t\<lparr>sockets := (sockets t)(nsockets t :=
                      \<lparr>readyState = 0, onclose = No_handler, sent = []\<rparr>),
                  nsockets := Suc (nsockets t)\<rparr>))"

definition set_onclose :: "nat \<Rightarrow> close_handler \<Rightarrow> transport \<Rightarrow> transport" where
  "set_onclose h c t = t\<lparr>sockets := (sockets t)(h := (sockets t h)\<lparr>onclose := c\<rparr>)\<rparr>"

definition set_readyState :: "nat \<Rightarrow> nat \<Rightarrow> transport \<Rightarrow> transport" where
  "set_readyState h r t = t\<lparr>sockets := (sockets t)(h := (sockets t h)\<lparr>readyState := r\<rparr>)\<rparr>"

text \<open>
  \<^verbatim>\<open>ws.close()\<close> starts the closing handshake of a connecting or open socket (state
  CLOSING, 2) and does nothing to a closing or closed one; the close event comes later.
\<close>

definition ws_close :: "nat \<Rightarrow> transport \<Rightarrow> transport" where
  "ws_close h t =
     (if readyState (sockets t h) = 0 \<or> readyState (sockets t h) = 1
      then set_readyState h 2 t else t)"

text \<open>\<^verbatim>\<open>ws.send(message)\<close>, which the transport calls on an open socket only (line 182).\<close>

definition ws_send :: "nat \<Rightarrow> wire \<Rightarrow> transport \<Rightarrow> transport" where
  "ws_send h message t =
     t\<lparr>sockets := (sockets t)(h := (sockets t h)\<lparr>sent := sent (sockets t h) @ [message]\<rparr>)\<rparr>"

text \<open>\<^verbatim>\<open>array.push(x)\<close> on the array object at address \<open>a\<close>.\<close>

definition array_push :: "nat \<Rightarrow> envelope \<Rightarrow> transport \<Rightarrow> transport" where
  "array_push a x t = t\<lparr>arrays := (arrays t)(a := arrays t a @ [x])\<rparr>"

section \<open>The private methods\<close>

text \<open>The close handler installed at lines 156-159.\<close>

definition retry_onclose :: "transport \<Rightarrow> transport" where
  "retry_onclose t = t\<lparr>nextSocket := None, timers := Suc (timers t)\<rparr>"

text \<open>\<^verbatim>\<open>_socketCreate\<close>, lines 135-160.\<close>

definition socketCreate :: "transport \<Rightarrow> outcome" where
  "socketCreate t =
     (if nextSocket t \<noteq> None then Done t
      else
        (case new_WebSocket t of
           Inl e \<Rightarrow> Thrown e t
         | Inr (h, t1) \<Rightarrow>
             (let t2 = t1\<lparr>nextSocket := h\<rparr>
              in case nextSocket t2 of
                   None \<Rightarrow> Thrown Failed_to_create_socket t2
                 | Some n \<Rightarrow> Done (set_onclose n Retry_handler t2))))"

text \<open>\<^verbatim>\<open>_socketClose\<close>, lines 170-177.\<close>

definition socketClose :: "transport \<Rightarrow> transport" where
  "socketClose t =
     (case socket t of
        None \<Rightarrow> t
      | Some h \<Rightarrow> ws_close h (set_onclose h Noop_handler t))"

text \<open>\<^verbatim>\<open>_setToQueue\<close>, lines 236-238.\<close>

definition setToQueue :: "envelope \<Rightarrow> transport \<Rightarrow> transport" where
  "setToQueue socketMessage t = array_push (queue t) socketMessage t"

text \<open>The test \<^verbatim>\<open>this._socket && this._socket.readyState === 1\<close> of lines 182 and 206.\<close>

definition socket_is_open :: "transport \<Rightarrow> bool" where
  "socket_is_open t =
     (case socket t of None \<Rightarrow> False | Some h \<Rightarrow> readyState (sockets t h) = 1)"

text \<open>\<^verbatim>\<open>_socketSend\<close>, lines 179-188.\<close>

definition socketSend :: "envelope \<Rightarrow> transport \<Rightarrow> outcome" where
  "socketSend socketMessage t =
     (case stringify socketMessage of
        None \<Rightarrow> Thrown TypeError t
      | Some message \<Rightarrow>
          (case socket t of
             None \<Rightarrow> socketCreate (setToQueue socketMessage t)
           | Some h \<Rightarrow>
               if readyState (sockets t h) = 1
               then Done (ws_send h message t)
               else socketCreate (setToQueue socketMessage t)))"

text \<open>
  The listeners registered for an event name, in registration order
  (\<^verbatim>\<open>this._events.filter(...)\<close>), and their invocation (\<^verbatim>\<open>events.forEach(...)\<close>).
\<close>

definition listeners :: "string \<Rightarrow> transport \<Rightarrow> nat list" where
  "listeners name t = map snd (filter (\<lambda>itemEvent. fst itemEvent = name) (events t))"

definition invoke_all :: "nat list \<Rightarrow> callback_arg \<Rightarrow> transport \<Rightarrow> transport" where
  "invoke_all cbs arg t = t\<lparr>calls := calls t @ map (\<lambda>cb. (cb, arg)) cbs\<rparr>"

text \<open>
  The property read \<^verbatim>\<open>socketMessage.topic\<close> of line 200 on a parsed value: a TypeError on
  \<^verbatim>\<open>null\<close> (\<open>None\<close>), the member of an object, \<^verbatim>\<open>undefined\<close> on anything else.
\<close>

fun topic_of :: "json \<Rightarrow> jsval option" where
  "topic_of JNull = None"
| "topic_of (JObj kvs) =
     Some (case map_of kvs ''topic'' of None \<Rightarrow> Undefined | Some v \<Rightarrow> Defined v)"
| "topic_of (JBool b) = Some Undefined"
| "topic_of (JNum n) = Some Undefined"
| "topic_of (JStr s) = Some Undefined"
| "topic_of (JArr xs) = Some Undefined"

text \<open>
  \<^verbatim>\<open>_socketReceive\<close>, lines 190-212. The message event is given by what
  \<^verbatim>\<open>JSON.parse(event.data)\<close> evaluates to: \<open>None\<close> when it throws, the parsed value otherwise.
  The function is \<^verbatim>\<open>async\<close> without an \<^verbatim>\<open>await\<close>: its body runs at once, and a throw rejects
  the returned promise.
\<close>

definition socketReceive :: "json option \<Rightarrow> transport \<Rightarrow> outcome" where
  "socketReceive parsed t =
     (case parsed of
        None \<Rightarrow> Done t
      | Some socketMessage \<Rightarrow>
          (case topic_of socketMessage of
             None \<Rightarrow> Thrown TypeError t
           | Some tp \<Rightarrow>
               (case socketSend \<lparr>topic = tp, type = ''ack'', payload = [], silent = True\<rparr> t of
                  Thrown e t1 \<Rightarrow> Thrown e t1
                | Done t1 \<Rightarrow>
                    Done (if socket_is_open t1
                          then invoke_all (listeners ''message'' t1) (Message_arg socketMessage) t1
                          else t1))))"

text \<open>\<^verbatim>\<open>_socketError\<close>, lines 214-219.\<close>

definition socketError :: "nat \<Rightarrow> transport \<Rightarrow> transport" where
  "socketError e t = invoke_all (listeners ''error'' t) (Error_arg e) t"

text \<open>\<^verbatim>\<open>this.opts.subscriptions || []\<close>: an array, even an empty one, is truthy.\<close>

definition subscriptions_or_empty :: "options \<Rightarrow> string list" where
  "subscriptions_or_empty os = (case opt_subscriptions os of None \<Rightarrow> [] | Some xs \<Rightarrow> xs)"

text \<open>The envelope of lines 225-230.\<close>

definition subscribe_envelope :: "string \<Rightarrow> envelope" where
  "subscribe_envelope tp = \<lparr>topic = Defined (JStr tp), type = ''sub'', payload = [], silent = True\<rparr>"

text \<open>
  \<^verbatim>\<open>_queueSubscriptions\<close>, lines 221-234. The loop pushes onto the queue array, never
  onto the array it iterates.
\<close>

definition queueSubscriptions :: "transport \<Rightarrow> transport" where
  "queueSubscriptions t =
     (let t1 = foldl (\<lambda>s tp. array_push (queue s) (subscribe_envelope tp) s) t (subscriptions t)
      in t1\<lparr>subscriptions := subscriptions_or_empty (opts t1)\<rparr>)"

text \<open>
  \<^verbatim>\<open>queue.forEach(m => this._socketSend(m))\<close> of line 243, on the array at address \<open>a\<close>.
  \<^verbatim>\<open>Array.prototype.forEach\<close> reads the length once, before the first call, and then
  visits the indices \<open>k < len\<close> that the array has at the time of the visit; elements
  pushed during the iteration lie beyond \<open>len\<close> and are not visited.
\<close>

function forEach_socketSend :: "nat \<Rightarrow> nat \<Rightarrow> nat \<Rightarrow> transport \<Rightarrow> outcome" where
  "forEach_socketSend a k len t =
     (if k < len then
        (if k < length (arrays t a) then
           (case socketSend (arrays t a ! k) t of
              Done t1 \<Rightarrow> forEach_socketSend a (Suc k) len t1
            | Thrown e t1 \<Rightarrow> Thrown e t1)
         else forEach_socketSend a (Suc k) len t)
      else Done t)"
  by pat_completeness auto
termination
  by (relation "measure (\<lambda>(a, k, len, t). len - k)") auto

declare forEach_socketSend.simps [simp del]

text \<open>
  \<^verbatim>\<open>_pushQueue\<close>, lines 240-246. \<^verbatim>\<open>const queue = this._queue\<close> copies the reference, not the
  array; \<^verbatim>\<open>this._queue = []\<close> then points the field at a new, empty array.
\<close>

definition pushQueue :: "transport \<Rightarrow> outcome" where
  "pushQueue t =
     (let a = queue t
      in case forEach_socketSend a 0 (length (arrays t a)) t of
           Thrown e t1 \<Rightarrow> Thrown e t1
         | Done t1 \<Rightarrow>
             Done (t1\<lparr>queue := narrays t1,
                      arrays := (arrays t1)(narrays t1 := []),
                      narrays := Suc (narrays t1)\<rparr>))"

text \<open>\<^verbatim>\<open>_socketOpen\<close>, lines 162-168.\<close>

definition socketOpen :: "transport \<Rightarrow> outcome" where
  "socketOpen t =
     (let t1 = socketClose t;
          t2 = t1\<lparr>socket := nextSocket t1\<rparr>;
          t3 = t2\<lparr>nextSocket := None\<rparr>;
          t4 = queueSubscriptions t3
      in pushQueue t4)"

section \<open>The public interface\<close>

text \<open>
  The constructor, lines 28-45. A throw leaves no object. The listener it registers on the
  network monitor is the \<open>Online\<close> event below. The first array object, at address 0, is the
  initial \<^verbatim>\<open>_queue = []\<close>; no socket exists yet.
\<close>

definition init_state :: "options \<Rightarrow> transport" where
  "init_state os =
     \<lparr>opts = os, protocol = opt_protocol os, version = opt_version os,
      url = opt_url os, socket = None, nextSocket = None, queue = 0,
      events = [], subscriptions = subscriptions_or_empty os,
      arrays = (\<lambda>a. []), narrays = 1,
      sockets = (\<lambda>h. \<lparr>readyState = 3, onclose = No_handler, sent = []\<rparr>),
      nsockets = 0, timers = 0, calls = []\<rparr>"

definition constructor :: "options \<Rightarrow> error + transport" where
  "constructor os =
     (if \<not> truthy (opt_url os) \<or> typeof (opt_url os) \<noteq> ''string''
      then Inl Missing_or_invalid_WebSocket_url
      else Inr (init_state os))"

definition open_transport :: "transport \<Rightarrow> outcome" where
  "open_transport t = socketCreate t"

definition close_transport :: "transport \<Rightarrow> outcome" where
  "close_transport t = Done (socketClose t)"

text \<open>\<^verbatim>\<open>send\<close>, lines 107-118; \<^verbatim>\<open>!!silent\<close> is \<^verbatim>\<open>ToBoolean\<close>.\<close>

definition send :: "string \<Rightarrow> jsval \<Rightarrow> jsval \<Rightarrow> transport \<Rightarrow> outcome" where
  "send message tp sil t =
     (if \<not> truthy tp \<or> typeof tp \<noteq> ''string''
      then Thrown Missing_or_invalid_topic_field t
      else socketSend \<lparr>topic = tp, type = ''pub'', payload = message, silent = truthy sil\<rparr> t)"

text \<open>\<^verbatim>\<open>subscribe\<close>, lines 120-127.\<close>

definition subscribe :: "jsval \<Rightarrow> transport \<Rightarrow> outcome" where
  "subscribe tp t = socketSend \<lparr>topic = tp, type = ''sub'', payload = [], silent = True\<rparr> t"

text \<open>\<^verbatim>\<open>on\<close>, lines 129-131.\<close>

definition on_event :: "string \<Rightarrow> nat \<Rightarrow> transport \<Rightarrow> outcome" where
  "on_event name cb t = Done (t\<lparr>events := events t @ [(name, cb)]\<rparr>)"

section \<open>The event loop\<close>

text \<open>
  What can happen to a transport: a call of its public interface, the network monitor's
  "online" signal, a retry timer running out, and the events of the WebSocket objects it
  created. A socket opens from CONNECTING only, closes once (state CLOSED, 3, then its
  current close handler runs), and delivers messages while OPEN or CLOSING. An event that
  cannot happen in a state leaves it as it is. A throw ends the handler and keeps the
  state reached.
\<close>

datatype event =
    Call_open
  | Call_close
  | Call_send string jsval jsval
  | Call_subscribe jsval
  | Call_on string nat
  | Online
  | Timeout
  | Ws_open nat
  | Ws_close nat
  | Ws_message nat "json option"
  | Ws_error nat nat

definition run_onclose :: "nat \<Rightarrow> transport \<Rightarrow> transport" where
  "run_onclose h t =
     (case onclose (sockets t h) of
        Retry_handler \<Rightarrow> retry_onclose t
      | Noop_handler \<Rightarrow> t
      | No_handler \<Rightarrow> t)"

fun step :: "event \<Rightarrow> transport \<Rightarrow> transport" where
  "step Call_open t = state_of (open_transport t)"
| "step Call_close t = state_of (close_transport t)"
| "step (Call_send message tp sil) t = state_of (send message tp sil t)"
| "step (Call_subscribe tp) t = state_of (subscribe tp t)"
| "step (Call_on name cb) t = state_of (on_event name cb t)"
| "step Online t = state_of (socketCreate t)"
| "step Timeout t =
     (if 0 < timers t then state_of (socketCreate (t\<lparr>timers := timers t - 1\<rparr>)) else t)"
| "step (Ws_open h) t =
     (if h < nsockets t \<and> readyState (sockets t h) = 0
      then state_of (socketOpen (set_readyState h 1 t)) else t)"
| "step (Ws_close h) t =
     (if h < nsockets t \<and> readyState (sockets t h) \<noteq> 3
      then run_onclose h (set_readyState h 3 t) else t)"
| "step (Ws_message h parsed) t =
     (if h < nsockets t \<and> (readyState (sockets t h) = 1 \<or> readyState (sockets t h) = 2)
      then state_of (socketReceive parsed t) else t)"
| "step (Ws_error h e) t =
     (if h < nsockets t then socketError e t else t)"

text \<open>A history of events, oldest first.\<close>

definition run :: "event list \<Rightarrow> transport \<Rightarrow> transport" where
  "run evs t = foldl (\<lambda>s e. step e s) t evs"

text \<open>The ready states of all sockets created so far, in order of creation.\<close>

definition ready_states :: "transport \<Rightarrow> nat list" where
  "ready_states t = map (\<lambda>h. readyState (sockets t h)) [0..<nsockets t]"

text \<open>Everything transmitted so far, per socket, in order of creation.\<close>

definition transmitted :: "transport \<Rightarrow> wire list list" where
  "transmitted t = map (\<lambda>h. sent (sockets t h)) [0..<nsockets t]"

section \<open>A concrete transport\<close>

text \<open>
  The configuration and the freshly constructed transport on which the theorems below are
  instantiated.
\<close>

definition example_options :: options where
  "example_options =
     \<lparr>opt_protocol = ''wc'', opt_version = 1,
      opt_url = Defined (JStr ''wss://relay''), opt_subscriptions = Some [''a'', ''b''],
      websocket_accepts_url = True\<rparr>"

definition example_transport :: transport where
  "example_transport = init_state example_options"

text \<open>
  A transport whose url passes the constructor's check although the WebSocket
  constructor rejects it.
\<close>

definition rejected_options :: options where
  "rejected_options =
     \<lparr>opt_protocol = ''wc'', opt_version = 1,
      opt_url = Defined (JStr ''relay''), opt_subscriptions = Some [''a'', ''b''],
      websocket_accepts_url = False\<rparr>"

definition rejected_transport :: transport where
  "rejected_transport = init_state rejected_options"

definition example_envelope :: envelope where
  "example_envelope =
     \<lparr>topic = Defined (JStr ''t''), type = ''pub'', payload = ''m'', silent = False\<rparr>"

text \<open>An inbound message as \<^verbatim>\<open>JSON.parse\<close> returns it, and its acknowledgement.\<close>

definition example_message :: json where
  "example_message =
     JObj [(''topic'', JStr ''x''), (''type'', JStr ''pub''), (''payload'', JStr ''p''),
           (''silent'', JBool False)]"

definition example_ack :: envelope where
  "example_ack = \<lparr>topic = Defined (JStr ''x''), type = ''ack'', payload = [], silent = True\<rparr>"

text \<open>A transport with one listener whose first connection has opened.\<close>

definition connected_transport :: transport where
  "connected_transport = run [Call_on ''message'' 5, Call_open, Ws_open 0] example_transport"

text \<open>
  A pending connection beside an open active one: the network monitor signalled "online"
  while connected.
\<close>

definition reconnecting_transport :: transport where
  "reconnecting_transport = run [Call_open, Ws_open 0, Online] example_transport"

text \<open>
  The first connection opens, the monitor's signal starts a second attempt, the first
  connection then drops, and the caller sends a message while disconnected.
\<close>

definition stale_history :: "event list" where
  "stale_history =
     [Call_open, Ws_open 0, Online, Ws_close 0, Call_send ''m'' (Defined (JStr ''t'')) Undefined]"

text \<open>Four connections in a row, each opening after the previous one has dropped.\<close>

definition three_reconnections :: "event list" where
  "three_reconnections =
     [Call_open, Ws_open 0, Ws_close 0, Timeout, Ws_open 1, Ws_close 1, Timeout, Ws_open 2,
      Ws_close 2, Timeout, Ws_open 3]"

text \<open>Events after a call of \<^verbatim>\<open>close()\<close>: a message, the monitor's signal, a new connection.\<close>

definition after_close_history :: "event list" where
  "after_close_history = [Ws_message 0 (Some example_message), Online, Ws_open 1]"

section \<open>Basic facts about the private methods\<close>

lemma socketCreate_eq:
  "socketCreate t =
     (if nextSocket t \<noteq> None then Done t
      else if \<not> websocket_accepts_url (opts t) then Thrown SyntaxError t
      else Done (t\<lparr>sockets := (sockets t)(nsockets t :=
                      \<lparr>readyState = 0, onclose = Retry_handler, sent = []\<rparr>),
                  nsockets := Suc (nsockets t),
                  nextSocket := Some (nsockets t)\<rparr>))"
  by (simp add: socketCreate_def new_WebSocket_def set_onclose_def)

lemma throws_socketCreate:
  "throws (socketCreate t) \<longleftrightarrow> nextSocket t = None \<and> \<not> websocket_accepts_url (opts t)"
  by (simp add: socketCreate_eq)

lemma socket_is_open_iff:
  "socket_is_open t \<longleftrightarrow> (\<exists>h. socket t = Some h \<and> readyState (sockets t h) = 1)"
  by (simp add: socket_is_open_def split: option.splits)

lemma socketSend_unserialisable:
  "\<not> serialisable (topic m) \<Longrightarrow> socketSend m t = Thrown TypeError t"
  by (simp add: socketSend_def stringify_def)

lemma socketSend_open:
  "serialisable (topic m) \<Longrightarrow> socket t = Some h \<Longrightarrow> readyState (sockets t h) = 1 \<Longrightarrow>
   socketSend m t = Done (ws_send h (JSON_stringify m) t)"
  by (simp add: socketSend_def stringify_def)

lemma socketSend_not_open:
  "serialisable (topic m) \<Longrightarrow> \<not> socket_is_open t \<Longrightarrow>
   socketSend m t = socketCreate (setToQueue m t)"
  by (simp add: socketSend_def stringify_def socket_is_open_def split: option.splits)

lemma throws_socketSend:
  "throws (socketSend m t) \<longleftrightarrow>
     \<not> serialisable (topic m) \<or>
     (\<not> socket_is_open t \<and> nextSocket t = None \<and> \<not> websocket_accepts_url (opts t))"
proof (cases "serialisable (topic m)")
  case False
  then show ?thesis
    by (simp add: socketSend_unserialisable)
next
  case ser: True
  show ?thesis
  proof (cases "socket_is_open t")
    case True
    then obtain h where "socket t = Some h" "readyState (sockets t h) = 1"
      by (auto simp add: socket_is_open_iff)
    with ser True show ?thesis
      by (simp add: socketSend_open)
  next
    case False
    with ser show ?thesis
      by (simp add: socketSend_not_open throws_socketCreate setToQueue_def array_push_def)
  qed
qed

lemma the_queue_socketCreate [simp]:
  "the_queue (state_of (socketCreate t)) = the_queue t"
  by (simp add: socketCreate_eq the_queue_def)

lemma the_queue_setToQueue [simp]:
  "the_queue (setToQueue m t) = the_queue t @ [m]"
  by (simp add: setToQueue_def array_push_def the_queue_def)

lemma topic_of_defined: "v \<noteq> JNull \<Longrightarrow> \<exists>tp. topic_of v = Some tp"
  by (cases v) simp_all

lemma topic_of_serialisable: "topic_of v = Some tp \<Longrightarrow> serialisable tp"
  by (cases v) (auto split: option.splits)

lemma socket_is_open_socketSend [simp]:
  "socket_is_open (state_of (socketSend m t)) = socket_is_open t"
  by (auto simp add: socketSend_def stringify_def socket_is_open_def socketCreate_eq ws_send_def
      setToQueue_def array_push_def split: option.splits)

lemma listeners_socketSend [simp]:
  "listeners name (state_of (socketSend m t)) = listeners name t"
  by (auto simp add: socketSend_def stringify_def listeners_def socketCreate_eq ws_send_def
      setToQueue_def array_push_def split: option.splits)

lemma socketReceive_eq:
  "topic_of v = Some tp \<Longrightarrow>
   socketReceive (Some v) t =
     (case socketSend \<lparr>topic = tp, type = ''ack'', payload = [], silent = True\<rparr> t of
        Thrown e t1 \<Rightarrow> Thrown e t1
      | Done t1 \<Rightarrow>
          Done (if socket_is_open t
                then invoke_all (listeners ''message'' t) (Message_arg v) t1
                else t1))"
proof -
  assume tp: "topic_of v = Some tp"
  let ?ack = "\<lparr>topic = tp, type = ''ack'', payload = [], silent = True\<rparr>"
  show ?thesis
  proof (cases "socketSend ?ack t")
    case (Thrown e t1)
    with tp show ?thesis
      by (simp add: socketReceive_def)
  next
    case (Done t1)
    with socket_is_open_socketSend [of ?ack t] listeners_socketSend [of "''message''" ?ack t]
    have "socket_is_open t1 = socket_is_open t"
      "listeners ''message'' t1 = listeners ''message'' t"
      by simp_all
    with tp Done show ?thesis
      by (simp add: socketReceive_def)
  qed
qed

section \<open>Loops and histories\<close>

lemma forEach_socketSend_preserves:
  assumes send: "\<And>m s. P s \<Longrightarrow> P (state_of (socketSend m s))"
  shows "P t \<Longrightarrow> P (state_of (forEach_socketSend a k len t))"
proof (induction a k len t rule: forEach_socketSend.induct)
  case (1 a k len t)
  show ?case
  proof (cases "k < len")
    case False
    with "1.prems" show ?thesis
      by (simp add: forEach_socketSend.simps [of a k len t])
  next
    case klen: True
    show ?thesis
    proof (cases "k < length (arrays t a)")
      case False
      with klen "1.IH"(2) "1.prems" show ?thesis
        by (simp add: forEach_socketSend.simps [of a k len t])
    next
      case True
      show ?thesis
      proof (cases "socketSend (arrays t a ! k) t")
        case (Done t1)
        from send [OF "1.prems", of "arrays t a ! k"] Done have "P t1"
          by simp
        with klen True Done "1.IH"(1) show ?thesis
          by (simp add: forEach_socketSend.simps [of a k len t])
      next
        case (Thrown e t1)
        from send [OF "1.prems", of "arrays t a ! k"] Thrown have "P t1"
          by simp
        with klen True Thrown show ?thesis
          by (simp add: forEach_socketSend.simps [of a k len t])
      qed
    qed
  qed
qed

lemma pushQueue_preserves:
  assumes send: "\<And>m s. P s \<Longrightarrow> P (state_of (socketSend m s))"
    and reset: "\<And>s. P s \<Longrightarrow>
      P (s\<lparr>queue := narrays s, arrays := (arrays s)(narrays s := []), narrays := Suc (narrays s)\<rparr>)"
  shows "P t \<Longrightarrow> P (state_of (pushQueue t))"
proof -
  assume "P t"
  have "P (state_of (forEach_socketSend (queue t) 0 (length (arrays t (queue t))) t))"
    using send \<open>P t\<close> by (rule forEach_socketSend_preserves [where P = P])
  then show ?thesis
    by (cases "forEach_socketSend (queue t) 0 (length (arrays t (queue t))) t")
       (simp_all add: pushQueue_def reset)
qed

lemma socketReceive_preserves:
  assumes send: "\<And>m s. P s \<Longrightarrow> P (state_of (socketSend m s))"
    and invoke: "\<And>cbs arg s. P s \<Longrightarrow> P (invoke_all cbs arg s)"
  shows "P t \<Longrightarrow> P (state_of (socketReceive parsed t))"
proof -
  assume t: "P t"
  show ?thesis
  proof (cases parsed)
    case None
    with t show ?thesis
      by (simp add: socketReceive_def)
  next
    case (Some v)
    show ?thesis
    proof (cases "topic_of v")
      case None
      with Some t show ?thesis
        by (simp add: socketReceive_def)
    next
      case tp: (Some tp)
      let ?ack = "\<lparr>topic = tp, type = ''ack'', payload = [], silent = True\<rparr>"
      from send [OF t, of ?ack] have sent: "P (state_of (socketSend ?ack t))" .
      show ?thesis
      proof (cases "socketSend ?ack t")
        case (Done t1)
        with sent have "P t1"
          by simp
        with Some tp Done invoke [of t1] show ?thesis
          by (simp add: socketReceive_def)
      next
        case (Thrown e t1)
        with sent Some tp show ?thesis
          by (simp add: socketReceive_def)
      qed
    qed
  qed
qed

lemma foldl_array_push:
  "foldl (\<lambda>s tp. array_push (queue s) (f tp) s) t xs =
     t\<lparr>arrays := (arrays t)(queue t := arrays t (queue t) @ map f xs)\<rparr>"
proof (induction xs arbitrary: t)
  case Nil
  show ?case by simp
next
  case (Cons x xs)
  have "foldl (\<lambda>s tp. array_push (queue s) (f tp) s) t (x # xs) =
        foldl (\<lambda>s tp. array_push (queue s) (f tp) s) (array_push (queue t) (f x) t) xs"
    by simp
  also have "\<dots> = (array_push (queue t) (f x) t)\<lparr>arrays :=
      (arrays (array_push (queue t) (f x) t))(queue (array_push (queue t) (f x) t) :=
         arrays (array_push (queue t) (f x) t) (queue (array_push (queue t) (f x) t)) @ map f xs)\<rparr>"
    by (rule Cons.IH)
  also have "\<dots> = t\<lparr>arrays := (arrays t)(queue t := arrays t (queue t) @ map f (x # xs))\<rparr>"
    by (simp add: array_push_def)
  finally show ?case .
qed

lemma queueSubscriptions_eq:
  "queueSubscriptions t =
     t\<lparr>arrays := (arrays t)(queue t := arrays t (queue t) @ map subscribe_envelope (subscriptions t)),
       subscriptions := subscriptions_or_empty (opts t)\<rparr>"
  by (simp add: queueSubscriptions_def foldl_array_push)

lemma run_Cons [simp]: "run (e # evs) t = run evs (step e t)"
  by (simp add: run_def)

lemma run_Nil [simp]: "run [] t = t"
  by (simp add: run_def)

lemma take_Suc_drop:
  "k < length xs \<Longrightarrow> take (Suc n) (drop k xs) = xs ! k # take n (drop (Suc k) xs)"
  by (simp add: Cons_nth_drop_Suc [symmetric])

lemma forEach_socketSend_open:
  "socket t = Some h \<Longrightarrow> readyState (sockets t h) = 1 \<Longrightarrow> len \<le> length (arrays t a) \<Longrightarrow>
   list_all (\<lambda>m. serialisable (topic m)) (arrays t a) \<Longrightarrow>
   forEach_socketSend a k len t =
     Done (t\<lparr>sockets := (sockets t)(h := (sockets t h)\<lparr>sent :=
       sent (sockets t h) @ map JSON_stringify (take (len - k) (drop k (arrays t a)))\<rparr>)\<rparr>)"
proof (induction a k len t rule: forEach_socketSend.induct)
  case (1 a k len t)
  show ?case
  proof (cases "k < len")
    case False
    then show ?thesis
      by (simp add: forEach_socketSend.simps [of a k len t])
  next
    case klen: True
    with "1.prems" have kin: "k < length (arrays t a)"
      by simp
    let ?t1 = "ws_send h (JSON_stringify (arrays t a ! k)) t"
    from "1.prems"(4) kin have "serialisable (topic (arrays t a ! k))"
      by (simp add: list_all_length)
    then have send: "socketSend (arrays t a ! k) t = Done ?t1"
      using "1.prems" by (simp add: socketSend_open)
    have pre: "socket ?t1 = Some h" "readyState (sockets ?t1 h) = 1"
      "len \<le> length (arrays ?t1 a)"
      "list_all (\<lambda>m. serialisable (topic m)) (arrays ?t1 a)"
      using "1.prems" by (simp_all add: ws_send_def)
    have "forEach_socketSend a k len t = forEach_socketSend a (Suc k) len ?t1"
      using klen kin send by (simp add: forEach_socketSend.simps [of a k len t])
    also have "\<dots> = Done (?t1\<lparr>sockets := (sockets ?t1)(h := (sockets ?t1 h)\<lparr>sent :=
       sent (sockets ?t1 h) @
         map JSON_stringify (take (len - Suc k) (drop (Suc k) (arrays ?t1 a)))\<rparr>)\<rparr>)"
      using klen kin send pre by (rule "1.IH"(1))
    also have "\<dots> = Done (t\<lparr>sockets := (sockets t)(h := (sockets t h)\<lparr>sent :=
       sent (sockets t h) @ map JSON_stringify (take (len - k) (drop k (arrays t a)))\<rparr>)\<rparr>)"
    proof -
      from klen have "len - k = Suc (len - Suc k)"
        by simp
      then have "take (len - k) (drop k (arrays t a)) =
          arrays t a ! k # take (len - Suc k) (drop (Suc k) (arrays t a))"
        using kin by (simp only: take_Suc_drop)
      then show ?thesis
        by (simp add: ws_send_def)
    qed
    finally show ?thesis .
  qed
qed

lemma pushQueue_open:
  "socket t = Some h \<Longrightarrow> readyState (sockets t h) = 1 \<Longrightarrow>
   list_all (\<lambda>m. serialisable (topic m)) (the_queue t) \<Longrightarrow>
   pushQueue t =
     Done (t\<lparr>sockets := (sockets t)(h := (sockets t h)\<lparr>sent :=
               sent (sockets t h) @ map JSON_stringify (the_queue t)\<rparr>),
             queue := narrays t,
             arrays := (arrays t)(narrays t := []),
             narrays := Suc (narrays t)\<rparr>)"
  by (simp add: pushQueue_def forEach_socketSend_open [where h = h] the_queue_def)

lemma socketClose_other:
  "socket t \<noteq> Some h \<Longrightarrow> sockets (socketClose t) h = sockets t h"
  by (simp add: socketClose_def ws_close_def set_onclose_def set_readyState_def
      split: option.splits)

lemma socketClose_active:
  "socket t = Some h0 \<Longrightarrow>
   onclose (sockets (socketClose t) h0) = Noop_handler \<and>
   readyState (sockets (socketClose t) h0) \<noteq> 0 \<and>
   readyState (sockets (socketClose t) h0) \<noteq> 1"
  by (simp add: socketClose_def ws_close_def set_onclose_def set_readyState_def)

lemma socketClose_frame:
  "socket (socketClose t) = socket t \<and> nextSocket (socketClose t) = nextSocket t \<and>
   queue (socketClose t) = queue t \<and> arrays (socketClose t) = arrays t \<and>
   narrays (socketClose t) = narrays t \<and> subscriptions (socketClose t) = subscriptions t \<and>
   opts (socketClose t) = opts t \<and> nsockets (socketClose t) = nsockets t \<and>
   timers (socketClose t) = timers t"
  by (simp add: socketClose_def ws_close_def set_onclose_def set_readyState_def
      split: option.splits)

lemma silent_close_event:
  "onclose (sockets t h) = Noop_handler \<Longrightarrow>
   timers (step (Ws_close h) t) = timers t \<and>
   nextSocket (step (Ws_close h) t) = nextSocket t \<and>
   nsockets (step (Ws_close h) t) = nsockets t \<and>
   the_queue (step (Ws_close h) t) = the_queue t"
  by (simp add: run_onclose_def set_readyState_def the_queue_def)

section \<open>The configuration is never changed\<close>

lemma configured_socketSend:
  "opts t = os \<and> subscriptions t = xs \<Longrightarrow>
   opts (state_of (socketSend m t)) = os \<and> subscriptions (state_of (socketSend m t)) = xs"
  by (auto simp add: socketSend_def socketCreate_eq ws_send_def setToQueue_def array_push_def
      split: option.splits)

lemma configured_pushQueue:
  "opts t = os \<and> subscriptions t = xs \<Longrightarrow>
   opts (state_of (pushQueue t)) = os \<and> subscriptions (state_of (pushQueue t)) = xs"
  by (rule pushQueue_preserves [where P = "\<lambda>s. opts s = os \<and> subscriptions s = xs"])
     (simp_all add: configured_socketSend)

lemma configured_socketClose:
  "opts (socketClose t) = opts t \<and> subscriptions (socketClose t) = subscriptions t"
  by (simp add: socketClose_def ws_close_def set_onclose_def set_readyState_def
      split: option.splits)

lemma configured_socketOpen:
  "opts t = os \<Longrightarrow>
   opts (state_of (socketOpen t)) = os \<and>
   subscriptions (state_of (socketOpen t)) = subscriptions_or_empty os"
  unfolding socketOpen_def Let_def
  by (rule configured_pushQueue) (simp add: queueSubscriptions_eq configured_socketClose)

lemma configured_socketReceive:
  "opts t = os \<and> subscriptions t = xs \<Longrightarrow>
   opts (state_of (socketReceive parsed t)) = os \<and>
   subscriptions (state_of (socketReceive parsed t)) = xs"
  by (rule socketReceive_preserves [where P = "\<lambda>s. opts s = os \<and> subscriptions s = xs"])
     (simp_all add: configured_socketSend invoke_all_def)

lemma configured_step:
  assumes "opts t = os \<and> subscriptions t = subscriptions_or_empty os"
  shows "opts (step e t) = os \<and> subscriptions (step e t) = subscriptions_or_empty os"
proof (cases e)
  case Call_open
  with assms show ?thesis by (simp add: open_transport_def socketCreate_eq)
next
  case Call_close
  with assms show ?thesis by (simp add: close_transport_def configured_socketClose)
next
  case (Call_send message tp sil)
  with assms configured_socketSend [OF assms] show ?thesis by (simp add: send_def)
next
  case (Call_subscribe tp)
  with assms configured_socketSend [OF assms] show ?thesis by (simp add: subscribe_def)
next
  case (Call_on name cb)
  with assms show ?thesis by (simp add: on_event_def)
next
  case Online
  with assms show ?thesis by (simp add: socketCreate_eq)
next
  case Timeout
  with assms show ?thesis by (simp add: socketCreate_eq)
next
  case (Ws_open h)
  have "opts (set_readyState h 1 t) = os"
    using assms by (simp add: set_readyState_def)
  from configured_socketOpen [OF this] Ws_open assms show ?thesis by simp
next
  case (Ws_close h)
  with assms show ?thesis
    by (simp add: run_onclose_def retry_onclose_def set_readyState_def split: close_handler.splits)
next
  case (Ws_message h parsed)
  with assms configured_socketReceive [OF assms] show ?thesis by simp
next
  case (Ws_error h e)
  with assms show ?thesis by (simp add: socketError_def invoke_all_def)
qed

lemma configured_run:
  "opts t = os \<and> subscriptions t = subscriptions_or_empty os \<Longrightarrow>
   opts (run evs t) = os \<and> subscriptions (run evs t) = subscriptions_or_empty os"
proof (induction evs arbitrary: t)
  case Nil
  then show ?case by simp
next
  case (Cons e evs)
  from Cons.IH [OF configured_step [OF Cons.prems]] show ?case by simp
qed

section \<open>A silenced close handler stays silenced\<close>

lemma silenced_socketSend:
  "h < nsockets t \<and> onclose (sockets t h) = Noop_handler \<Longrightarrow>
   h < nsockets (state_of (socketSend m t)) \<and>
   onclose (sockets (state_of (socketSend m t)) h) = Noop_handler"
  by (auto simp add: socketSend_def socketCreate_eq ws_send_def setToQueue_def array_push_def
      split: option.splits)

lemma silenced_pushQueue:
  "h < nsockets t \<and> onclose (sockets t h) = Noop_handler \<Longrightarrow>
   h < nsockets (state_of (pushQueue t)) \<and>
   onclose (sockets (state_of (pushQueue t)) h) = Noop_handler"
  by (rule pushQueue_preserves
        [where P = "\<lambda>s. h < nsockets s \<and> onclose (sockets s h) = Noop_handler"])
     (simp_all add: silenced_socketSend)

lemma silenced_socketClose:
  "h < nsockets t \<and> onclose (sockets t h) = Noop_handler \<Longrightarrow>
   h < nsockets (socketClose t) \<and> onclose (sockets (socketClose t) h) = Noop_handler"
  by (simp add: socketClose_def ws_close_def set_onclose_def set_readyState_def
      split: option.splits)

lemma silenced_socketOpen:
  "h < nsockets t \<and> onclose (sockets t h) = Noop_handler \<Longrightarrow>
   h < nsockets (state_of (socketOpen t)) \<and>
   onclose (sockets (state_of (socketOpen t)) h) = Noop_handler"
  unfolding socketOpen_def Let_def
  by (rule silenced_pushQueue, drule silenced_socketClose) (simp add: queueSubscriptions_eq)

lemma silenced_socketReceive:
  "h < nsockets t \<and> onclose (sockets t h) = Noop_handler \<Longrightarrow>
   h < nsockets (state_of (socketReceive parsed t)) \<and>
   onclose (sockets (state_of (socketReceive parsed t)) h) = Noop_handler"
  by (rule socketReceive_preserves
        [where P = "\<lambda>s. h < nsockets s \<and> onclose (sockets s h) = Noop_handler"])
     (simp_all add: silenced_socketSend invoke_all_def)

lemma silenced_step:
  assumes c: "h < nsockets t \<and> onclose (sockets t h) = Noop_handler"
  shows "h < nsockets (step e t) \<and> onclose (sockets (step e t) h) = Noop_handler"
proof (cases e)
  case Call_open
  with c show ?thesis by (simp add: open_transport_def socketCreate_eq)
next
  case Call_close
  with silenced_socketClose [OF c] show ?thesis by (simp add: close_transport_def)
next
  case (Call_send message tp sil)
  with c silenced_socketSend [OF c] show ?thesis by (simp add: send_def)
next
  case (Call_subscribe tp)
  with silenced_socketSend [OF c] show ?thesis by (simp add: subscribe_def)
next
  case (Call_on name cb)
  with c show ?thesis by (simp add: on_event_def)
next
  case Online
  with c show ?thesis by (simp add: socketCreate_eq)
next
  case Timeout
  with c show ?thesis by (simp add: socketCreate_eq)
next
  case (Ws_open h')
  have "h < nsockets (set_readyState h' 1 t) \<and>
        onclose (sockets (set_readyState h' 1 t) h) = Noop_handler"
    using c by (auto simp add: set_readyState_def)
  from silenced_socketOpen [OF this] Ws_open c show ?thesis by simp
next
  case (Ws_close h')
  with c show ?thesis
    by (auto simp add: run_onclose_def retry_onclose_def set_readyState_def
        split: close_handler.splits)
next
  case (Ws_message h' parsed)
  with c silenced_socketReceive [OF c] show ?thesis by simp
next
  case (Ws_error h' e')
  with c show ?thesis by (simp add: socketError_def invoke_all_def)
qed

lemma silenced_run:
  "h < nsockets t \<and> onclose (sockets t h) = Noop_handler \<Longrightarrow>
   h < nsockets (run evs t) \<and> onclose (sockets (run evs t) h) = Noop_handler"
proof (induction evs arbitrary: t)
  case Nil
  then show ?case by simp
next
  case (Cons e evs)
  from Cons.IH [OF silenced_step [OF Cons.prems]] show ?case by simp
qed

section \<open>The drain without an open connection\<close>

text \<open>
  Unless it throws, \<^verbatim>\<open>_pushQueue\<close> ends with an empty queue. When the active connection is
  not open, it also transmits nothing: every envelope is pushed back onto the array under
  iteration, which line 245 then drops.
\<close>

lemma pushQueue_queue_empty:
  "\<not> throws (pushQueue t) \<Longrightarrow> the_queue (state_of (pushQueue t)) = []"
  by (cases "forEach_socketSend (queue t) 0 (length (arrays t (queue t))) t")
     (simp_all add: pushQueue_def the_queue_def)

lemma not_open_socketSend:
  assumes "\<not> socket_is_open s \<and> n \<le> nsockets s \<and> take n (transmitted s) = xs"
  shows "\<not> socket_is_open (state_of (socketSend m s)) \<and>
    n \<le> nsockets (state_of (socketSend m s)) \<and>
    take n (transmitted (state_of (socketSend m s))) = xs"
proof (cases "serialisable (topic m)")
  case False
  with assms show ?thesis
    by (simp add: socketSend_unserialisable)
next
  case True
  with assms have eq: "socketSend m s = socketCreate (setToQueue m s)"
    by (simp add: socketSend_not_open)
  have "take n (transmitted (state_of (socketCreate (setToQueue m s)))) = take n (transmitted s)"
    using assms
    by (simp add: socketCreate_eq transmitted_def setToQueue_def array_push_def take_map)
  moreover have "n \<le> nsockets (state_of (socketCreate (setToQueue m s)))"
    using assms by (simp add: socketCreate_eq setToQueue_def array_push_def)
  moreover have "\<not> socket_is_open (state_of (socketSend m s))"
    using assms by simp
  ultimately show ?thesis
    using assms by (simp add: eq)
qed

lemma pushQueue_not_open:
  assumes "\<not> socket_is_open t"
  shows "take (nsockets t) (transmitted (state_of (pushQueue t))) = transmitted t \<and>
    (throws (pushQueue t) \<or> the_queue (state_of (pushQueue t)) = [])"
proof -
  let ?P = "\<lambda>s. \<not> socket_is_open s \<and> nsockets t \<le> nsockets s \<and>
    take (nsockets t) (transmitted s) = transmitted t"
  have "?P (state_of (pushQueue t))"
  proof (rule pushQueue_preserves [where P = ?P])
    show "?P t"
      using assms by (simp add: transmitted_def)
  next
    fix m s
    assume "?P s"
    then show "?P (state_of (socketSend m s))"
      by (rule not_open_socketSend)
  next
    fix s
    assume "?P s"
    then show "?P (s\<lparr>queue := narrays s, arrays := (arrays s)(narrays s := []),
        narrays := Suc (narrays s)\<rparr>)"
      by (simp add: socket_is_open_def transmitted_def split: option.splits)
  qed
  with pushQueue_queue_empty [of t] show ?thesis
    by auto
qed

section \<open>Argument checks of the public interface\<close>

text \<open>
  Claim C8. A call \<^verbatim>\<open>send(message, topic, silent)\<close> whose topic is missing (undefined) or
  not a string throws the invalid-topic error and leaves the transport exactly as it was:
  the queue is untouched and no connection is created. With a topic that is a non-empty
  string, the call is the routing of the publish envelope
  \<^verbatim>\<open>{topic, type: "pub", payload: message, silent: !!silent}\<close> through \<^verbatim>\<open>_socketSend\<close>.
  A valid topic is read as a non-empty string: the empty string is falsy and is rejected
  like a missing topic (\<open>send_empty_topic\<close>).
\<close>

theorem send_topic_check:
  "(tp = Undefined \<or> typeof tp \<noteq> ''string'' \<longrightarrow>
      send message tp sil t = Thrown Missing_or_invalid_topic_field t) \<and>
   (s \<noteq> [] \<longrightarrow>
      send message (Defined (JStr s)) sil t =
        socketSend \<lparr>topic = Defined (JStr s), type = ''pub'', payload = message,
                   silent = truthy sil\<rparr> t)"
  by (auto simp add: send_def)

theorem send_topic_check_witness:
  "typeof Undefined \<noteq> ''string'' \<and>
   send ''hi'' Undefined Undefined example_transport =
     Thrown Missing_or_invalid_topic_field example_transport \<and>
   ''t'' \<noteq> [] \<and>
   send ''hi'' (Defined (JStr ''t'')) Undefined example_transport =
     socketSend \<lparr>topic = Defined (JStr ''t''), type = ''pub'', payload = ''hi'',
                silent = False\<rparr> example_transport"
  using send_topic_check [where tp = Undefined and s = "''t''" and message = "''hi''"
      and sil = Undefined and t = example_transport]
  by simp

lemma send_empty_topic:
  "send message (Defined (JStr [])) sil t = Thrown Missing_or_invalid_topic_field t"
  by (simp add: send_def)

text \<open>
  Claim C9. Constructing a transport from a configuration whose url is missing
  (undefined) or not a string throws at once and yields no object; with a url that is a
  non-empty string the constructor throws nothing and yields the initial transport. As for
  topics, the empty string counts as missing (\<open>constructor_empty_url\<close>).
\<close>

theorem constructor_url_check:
  "(opt_url os = Undefined \<or> typeof (opt_url os) \<noteq> ''string'' \<longrightarrow>
      constructor os = Inl Missing_or_invalid_WebSocket_url) \<and>
   (opt_url os = Defined (JStr s) \<and> s \<noteq> [] \<longrightarrow>
      constructor os = Inr (init_state os))"
  by (auto simp add: constructor_def)

theorem constructor_url_check_witness:
  "typeof (opt_url (example_options\<lparr>opt_url := Undefined\<rparr>)) \<noteq> ''string'' \<and>
   constructor (example_options\<lparr>opt_url := Undefined\<rparr>) =
     Inl Missing_or_invalid_WebSocket_url \<and>
   opt_url example_options = Defined (JStr ''wss://relay'') \<and> ''wss://relay'' \<noteq> [] \<and>
   constructor example_options = Inr example_transport"
  using constructor_url_check [where os = "example_options\<lparr>opt_url := Undefined\<rparr>"]
    constructor_url_check [where os = example_options and s = "''wss://relay''"]
  by (simp add: example_options_def example_transport_def)

lemma constructor_empty_url:
  "opt_url os = Defined (JStr []) \<Longrightarrow> constructor os = Inl Missing_or_invalid_WebSocket_url"
  by (simp add: constructor_def)

section \<open>Routing: transmit or queue\<close>



section \<open>Subscribing\<close>

text \<open>
  Claim C10 says that \<^verbatim>\<open>subscribe\<close> never throws, whatever the topic. It has no check of
  its own, but its envelope goes through \<^verbatim>\<open>_socketSend\<close>, whose first statement (line 180)
  serialises it: a BigInt topic, or an object that cannot be serialised, makes
  \<^verbatim>\<open>JSON.stringify\<close> throw a TypeError, on a connected transport as on any other. And with a
  topic that is a plain string, a transport whose url the WebSocket constructor rejects
  throws from \<^verbatim>\<open>new WebSocket\<close> (line 142), the envelope being queued already.
\<close>

theorem subscribe_throws_counterexample:
  "socket_is_open connected_transport \<and>
   subscribe (BigInt 1) connected_transport = Thrown TypeError connected_transport \<and>
   subscribe Unserialisable_object example_transport = Thrown TypeError example_transport \<and>
   constructor rejected_options = Inr rejected_transport \<and>
   subscribe (Defined (JStr ''a'')) rejected_transport =
     Thrown SyntaxError
       (setToQueue \<lparr>topic = Defined (JStr ''a''), type = ''sub'', payload = [], silent = True\<rparr>
          rejected_transport)"
proof -
  have "socket_is_open connected_transport"
    by code_simp
  moreover have "constructor rejected_options = Inr rejected_transport"
    by (simp add: constructor_def rejected_options_def rejected_transport_def)
  moreover have "\<not> socket_is_open rejected_transport"
    by code_simp
  then have "subscribe (Defined (JStr ''a'')) rejected_transport =
     Thrown SyntaxError
       (setToQueue \<lparr>topic = Defined (JStr ''a''), type = ''sub'', payload = [], silent = True\<rparr>
          rejected_transport)"
    by (simp add: subscribe_def socketSend_not_open socketCreate_eq setToQueue_def
        array_push_def rejected_transport_def rejected_options_def init_state_def)
  ultimately show ?thesis
    by (simp add: subscribe_def socketSend_unserialisable)
qed

text \<open>
  Claim C10, amended. \<^verbatim>\<open>subscribe\<close> does not validate its topic: for every topic value the
  call is the routing of the envelope \<^verbatim>\<open>{topic, type: "sub", payload: "", silent: true}\<close>
  through \<^verbatim>\<open>_socketSend\<close>, and it never throws the invalid-topic error of \<^verbatim>\<open>send\<close>. It throws
  exactly when the routing throws: when \<^verbatim>\<open>JSON.stringify\<close> cannot serialise the topic, with
  the transport left as it was; or when no connection is open or pending and the
  WebSocket constructor rejects the url. For every topic that can be serialised
  (undefined, null, booleans, numbers, strings, the empty one included, arrays, objects,
  symbols, functions) the envelope is transmitted on the open connection or else
  appended to the queue.
\<close>

theorem subscribe_no_validation:
  "subscribe tp t = socketSend \<lparr>topic = tp, type = ''sub'', payload = [], silent = True\<rparr> t \<and>
   (\<forall>t'. subscribe tp t \<noteq> Thrown Missing_or_invalid_topic_field t') \<and>
   throws (subscribe tp t) =
     (\<not> serialisable tp \<or>
      \<not> socket_is_open t \<and> nextSocket t = None \<and> \<not> websocket_accepts_url (opts t)) \<and>
   (\<not> serialisable tp \<longrightarrow> subscribe tp t = Thrown TypeError t) \<and>
   (serialisable tp \<longrightarrow>
      socket_is_open t \<and>
        (\<exists>h. socket t = Some h \<and>
           sent (sockets (state_of (subscribe tp t)) h) =
             sent (sockets t h) @
               [JSON_stringify \<lparr>topic = tp, type = ''sub'', payload = [], silent = True\<rparr>]) \<or>
      \<not> socket_is_open t \<and>
        the_queue (state_of (subscribe tp t)) =
          the_queue t @ [\<lparr>topic = tp, type = ''sub'', payload = [], silent = True\<rparr>])"
proof (intro conjI allI impI)
  let ?m = "\<lparr>topic = tp, type = ''sub'', payload = [], silent = True\<rparr>"
  show eq: "subscribe tp t = socketSend ?m t"
    by (simp add: subscribe_def)
  show "throws (subscribe tp t) =
     (\<not> serialisable tp \<or>
      \<not> socket_is_open t \<and> nextSocket t = None \<and> \<not> websocket_accepts_url (opts t))"
    by (simp add: eq throws_socketSend)
  {
    assume "\<not> serialisable tp"
    then show "subscribe tp t = Thrown TypeError t"
      by (simp add: eq socketSend_unserialisable)
  }
  {
    fix t'
    show "subscribe tp t \<noteq> Thrown Missing_or_invalid_topic_field t'"
      by (simp add: eq socketSend_def stringify_def socketCreate_eq split: option.splits)
  }
  {
    assume ser: "serialisable tp"
    show "socket_is_open t \<and>
        (\<exists>h. socket t = Some h \<and>
           sent (sockets (state_of (subscribe tp t)) h) =
             sent (sockets t h) @ [JSON_stringify ?m]) \<or>
      \<not> socket_is_open t \<and>
        the_queue (state_of (subscribe tp t)) = the_queue t @ [?m]"
    proof (cases "socket_is_open t")
      case True
      then obtain h where h: "socket t = Some h" "readyState (sockets t h) = 1"
        by (auto simp add: socket_is_open_iff)
      then show ?thesis
        using True ser by (simp add: eq socketSend_open ws_send_def)
    next
      case False
      then show ?thesis
        using ser by (simp add: eq socketSend_not_open)
    qed
  }
qed

theorem subscribe_no_validation_witness:
  "websocket_accepts_url (opts example_transport) \<and>
   serialisable Undefined \<and>
   \<not> throws (subscribe Undefined example_transport) \<and>
   \<not> throws (subscribe (Defined (JStr [])) example_transport) \<and>
   \<not> throws (subscribe (Defined (JNum 7)) example_transport) \<and>
   the_queue (state_of (subscribe Undefined example_transport)) =
     [\<lparr>topic = Undefined, type = ''sub'', payload = [], silent = True\<rparr>] \<and>
   \<not> serialisable (BigInt 1) \<and>
   subscribe (BigInt 1) example_transport = Thrown TypeError example_transport"
proof -
  have ok: "websocket_accepts_url (opts example_transport)"
    by code_simp
  have b: "\<not> socket_is_open example_transport"
    by code_simp
  have q: "the_queue example_transport = []"
    by code_simp
  note U = subscribe_no_validation [of Undefined example_transport]
  note E = subscribe_no_validation [of "Defined (JStr [])" example_transport]
  note N = subscribe_no_validation [of "Defined (JNum 7)" example_transport]
  note B = subscribe_no_validation [of "BigInt 1" example_transport]
  from U have "serialisable Undefined \<longrightarrow>
      socket_is_open example_transport \<and>
        (\<exists>h. socket example_transport = Some h \<and>
           sent (sockets (state_of (subscribe Undefined example_transport)) h) =
             sent (sockets example_transport h) @
               [JSON_stringify \<lparr>topic = Undefined, type = ''sub'', payload = [], silent = True\<rparr>]) \<or>
      \<not> socket_is_open example_transport \<and>
        the_queue (state_of (subscribe Undefined example_transport)) =
          the_queue example_transport @
            [\<lparr>topic = Undefined, type = ''sub'', payload = [], silent = True\<rparr>]"
    by blast
  with b have "the_queue (state_of (subscribe Undefined example_transport)) =
          the_queue example_transport @
            [\<lparr>topic = Undefined, type = ''sub'', payload = [], silent = True\<rparr>]"
    by simp
  then have Q: "the_queue (state_of (subscribe Undefined example_transport)) =
          [\<lparr>topic = Undefined, type = ''sub'', payload = [], silent = True\<rparr>]"
    by (simp only: q append_Nil)
  from U have "throws (subscribe Undefined example_transport) =
     (\<not> serialisable Undefined \<or>
      \<not> socket_is_open example_transport \<and> nextSocket example_transport = None \<and>
      \<not> websocket_accepts_url (opts example_transport))"
    by blast
  with ok have T1: "\<not> throws (subscribe Undefined example_transport)"
    by simp
  from E have "throws (subscribe (Defined (JStr [])) example_transport) =
     (\<not> serialisable (Defined (JStr [])) \<or>
      \<not> socket_is_open example_transport \<and> nextSocket example_transport = None \<and>
      \<not> websocket_accepts_url (opts example_transport))"
    by blast
  with ok have T2: "\<not> throws (subscribe (Defined (JStr [])) example_transport)"
    by simp
  from N have "throws (subscribe (Defined (JNum 7)) example_transport) =
     (\<not> serialisable (Defined (JNum 7)) \<or>
      \<not> socket_is_open example_transport \<and> nextSocket example_transport = None \<and>
      \<not> websocket_accepts_url (opts example_transport))"
    by blast
  with ok have T3: "\<not> throws (subscribe (Defined (JNum 7)) example_transport)"
    by simp
  from B have "\<not> serialisable (BigInt 1) \<longrightarrow>
      subscribe (BigInt 1) example_transport = Thrown TypeError example_transport"
    by blast
  then have X: "subscribe (BigInt 1) example_transport = Thrown TypeError example_transport"
    by simp
  from ok Q T1 T2 T3 X show ?thesis
    by simp
qed

section \<open>Receiving and acknowledging\<close>

text \<open>
  Claim C3 says that every raw event whose data parses is acknowledged. The data
  \<^verbatim>\<open>null\<close> parses, to \<^verbatim>\<open>null\<close>; reading \<^verbatim>\<open>socketMessage.topic\<close> (line 200) then throws a
  TypeError, outside the \<^verbatim>\<open>try\<close> block that discards malformed data. On a connected
  transport with a message listener, the message arriving on the open connection leaves
  the transport as it was: nothing is acknowledged and no listener is called.
\<close>

theorem socketReceive_null_throws:
  "socket connected_transport = Some 0 \<and>
   readyState (sockets connected_transport 0) = 1 \<and>
   listeners ''message'' connected_transport = [5] \<and>
   socketReceive (Some JNull) connected_transport = Thrown TypeError connected_transport \<and>
   step (Ws_message 0 (Some JNull)) connected_transport = connected_transport"
proof -
  have a: "socket connected_transport = Some 0"
    "readyState (sockets connected_transport 0) = 1"
    "listeners ''message'' connected_transport = [5]"
    by code_simp+
  have r: "socketReceive (Some JNull) connected_transport = Thrown TypeError connected_transport"
    by (simp add: socketReceive_def)
  then have "step (Ws_message 0 (Some JNull)) connected_transport = connected_transport"
    by simp
  with a r show ?thesis
    by blast
qed

text \<open>
  For every other parsed value the claim holds. A raw event whose data fails to parse
  changes nothing: no acknowledgement, no dispatch. A raw event whose data parses to a
  value other than \<^verbatim>\<open>null\<close> produces exactly one acknowledge envelope
  \<^verbatim>\<open>{topic: the value's topic member, type: "ack", payload: "", silent: true}\<close>, whatever
  the value's other members are: on an open active connection it is the one message
  transmitted (nothing is queued, and the message listeners are called, in registration
  order); otherwise it is the one envelope appended to the queue (nothing is transmitted
  and no listener is called).
\<close>

lemma socketReceive_acknowledges:
  "socketReceive None t = Done t \<and>
   (v \<noteq> JNull \<longrightarrow>
      (\<exists>tp. topic_of v = Some tp \<and>
         (socket_is_open t \<longrightarrow>
            \<not> throws (socketReceive (Some v) t) \<and>
            (\<exists>h. socket t = Some h \<and>
               sent (sockets (state_of (socketReceive (Some v) t)) h) =
                 sent (sockets t h) @
                   [JSON_stringify \<lparr>topic = tp, type = ''ack'', payload = [], silent = True\<rparr>] \<and>
               (\<forall>h'. h' \<noteq> h \<longrightarrow>
                  sent (sockets (state_of (socketReceive (Some v) t)) h') = sent (sockets t h'))) \<and>
            the_queue (state_of (socketReceive (Some v) t)) = the_queue t \<and>
            calls (state_of (socketReceive (Some v) t)) =
              calls t @ map (\<lambda>cb. (cb, Message_arg v)) (listeners ''message'' t)) \<and>
         (\<not> socket_is_open t \<longrightarrow>
            the_queue (state_of (socketReceive (Some v) t)) =
              the_queue t @ [\<lparr>topic = tp, type = ''ack'', payload = [], silent = True\<rparr>] \<and>
            take (nsockets t) (transmitted (state_of (socketReceive (Some v) t))) = transmitted t \<and>
            calls (state_of (socketReceive (Some v) t)) = calls t)))"
proof (intro conjI impI)
  show "socketReceive None t = Done t"
    by (simp add: socketReceive_def)
next
  assume "v \<noteq> JNull"
  then obtain tp where tp: "topic_of v = Some tp"
    using topic_of_defined by blast
  then have ser: "serialisable tp"
    by (rule topic_of_serialisable)
  let ?ack = "\<lparr>topic = tp, type = ''ack'', payload = [], silent = True\<rparr>"
  note eq = socketReceive_eq [OF tp, of t]
  have open_case: "socket_is_open t \<longrightarrow>
            \<not> throws (socketReceive (Some v) t) \<and>
            (\<exists>h. socket t = Some h \<and>
               sent (sockets (state_of (socketReceive (Some v) t)) h) =
                 sent (sockets t h) @ [JSON_stringify ?ack] \<and>
               (\<forall>h'. h' \<noteq> h \<longrightarrow>
                  sent (sockets (state_of (socketReceive (Some v) t)) h') = sent (sockets t h'))) \<and>
            the_queue (state_of (socketReceive (Some v) t)) = the_queue t \<and>
            calls (state_of (socketReceive (Some v) t)) =
              calls t @ map (\<lambda>cb. (cb, Message_arg v)) (listeners ''message'' t)"
  proof
    assume op: "socket_is_open t"
    then obtain h where h: "socket t = Some h" "readyState (sockets t h) = 1"
      by (auto simp add: socket_is_open_iff)
    show "\<not> throws (socketReceive (Some v) t) \<and>
            (\<exists>h. socket t = Some h \<and>
               sent (sockets (state_of (socketReceive (Some v) t)) h) =
                 sent (sockets t h) @ [JSON_stringify ?ack] \<and>
               (\<forall>h'. h' \<noteq> h \<longrightarrow>
                  sent (sockets (state_of (socketReceive (Some v) t)) h') = sent (sockets t h'))) \<and>
            the_queue (state_of (socketReceive (Some v) t)) = the_queue t \<and>
            calls (state_of (socketReceive (Some v) t)) =
              calls t @ map (\<lambda>cb. (cb, Message_arg v)) (listeners ''message'' t)"
      using op h ser by (simp add: eq socketSend_open ws_send_def invoke_all_def the_queue_def)
  qed
  have closed_case: "\<not> socket_is_open t \<longrightarrow>
            the_queue (state_of (socketReceive (Some v) t)) = the_queue t @ [?ack] \<and>
            take (nsockets t) (transmitted (state_of (socketReceive (Some v) t))) = transmitted t \<and>
            calls (state_of (socketReceive (Some v) t)) = calls t"
  proof
    assume cl: "\<not> socket_is_open t"
    have st: "state_of (socketReceive (Some v) t) = state_of (socketCreate (setToQueue ?ack t))"
      using cl ser
      by (cases "socketCreate (setToQueue ?ack t)") (simp_all add: eq socketSend_not_open)
    have "take (nsockets t) (transmitted (state_of (socketCreate (setToQueue ?ack t)))) = transmitted t"
      by (simp add: socketCreate_eq transmitted_def setToQueue_def array_push_def take_map)
    moreover have "calls (state_of (socketCreate (setToQueue ?ack t))) = calls t"
      by (simp add: socketCreate_eq setToQueue_def array_push_def)
    ultimately show "the_queue (state_of (socketReceive (Some v) t)) = the_queue t @ [?ack] \<and>
            take (nsockets t) (transmitted (state_of (socketReceive (Some v) t))) = transmitted t \<and>
            calls (state_of (socketReceive (Some v) t)) = calls t"
      by (simp add: st)
  qed
  from tp open_case closed_case
  show "\<exists>tp. topic_of v = Some tp \<and>
         (socket_is_open t \<longrightarrow>
            \<not> throws (socketReceive (Some v) t) \<and>
            (\<exists>h. socket t = Some h \<and>
               sent (sockets (state_of (socketReceive (Some v) t)) h) =
                 sent (sockets t h) @
                   [JSON_stringify \<lparr>topic = tp, type = ''ack'', payload = [], silent = True\<rparr>] \<and>
               (\<forall>h'. h' \<noteq> h \<longrightarrow>
                  sent (sockets (state_of (socketReceive (Some v) t)) h') = sent (sockets t h'))) \<and>
            the_queue (state_of (socketReceive (Some v) t)) = the_queue t \<and>
            calls (state_of (socketReceive (Some v) t)) =
              calls t @ map (\<lambda>cb. (cb, Message_arg v)) (listeners ''message'' t)) \<and>
         (\<not> socket_is_open t \<longrightarrow>
            the_queue (state_of (socketReceive (Some v) t)) =
              the_queue t @ [\<lparr>topic = tp, type = ''ack'', payload = [], silent = True\<rparr>] \<and>
            take (nsockets t) (transmitted (state_of (socketReceive (Some v) t))) = transmitted t \<and>
            calls (state_of (socketReceive (Some v) t)) = calls t)"
    by blast
qed

lemma socketReceive_acknowledges_example:
  "socketReceive (Some example_message) connected_transport =
     Done (invoke_all [5] (Message_arg example_message)
            (ws_send 0 (JSON_stringify example_ack) connected_transport))"
proof -
  have tp: "topic_of example_message = Some (Defined (JStr ''x''))"
    by (simp add: example_message_def)
  have a: "socket_is_open connected_transport" "socket connected_transport = Some 0"
    "readyState (sockets connected_transport 0) = 1"
    "listeners ''message'' connected_transport = [5]"
    by code_simp+
  show ?thesis
    using a by (simp add: socketReceive_eq [OF tp] socketSend_open example_ack_def)
qed

section \<open>Replaying the subscriptions\<close>

text \<open>
  Claim C4. \<^verbatim>\<open>_queueSubscriptions\<close> pushes exactly one subscribe envelope
  \<^verbatim>\<open>{topic, type: "sub", payload: "", silent: true}\<close> onto the outbound queue for each topic
  of the current subscription list, in list order, and then resets the live list to the
  configured one. For a transport built by the constructor, after any history of events,
  hence after any number of reconnections, the live list is the configured list: each
  replay pushes the configured topics, once each, and nothing accumulates.
\<close>

theorem replay_is_configured_set:
  "the_queue (queueSubscriptions t) =
     the_queue t @
       map (\<lambda>tp. \<lparr>topic = Defined (JStr tp), type = ''sub'', payload = [], silent = True\<rparr>)
         (subscriptions t) \<and>
   subscriptions (queueSubscriptions t) =
     (case opt_subscriptions (opts t) of None \<Rightarrow> [] | Some xs \<Rightarrow> xs) \<and>
   (constructor os = Inr t0 \<longrightarrow>
      subscriptions (run evs t0) =
        (case opt_subscriptions os of None \<Rightarrow> [] | Some xs \<Rightarrow> xs) \<and>
      the_queue (queueSubscriptions (run evs t0)) =
        the_queue (run evs t0) @
          map (\<lambda>tp. \<lparr>topic = Defined (JStr tp), type = ''sub'', payload = [], silent = True\<rparr>)
            (case opt_subscriptions os of None \<Rightarrow> [] | Some xs \<Rightarrow> xs) \<and>
      subscriptions (queueSubscriptions (run evs t0)) =
        (case opt_subscriptions os of None \<Rightarrow> [] | Some xs \<Rightarrow> xs))"
proof (intro conjI impI)
  have env: "subscribe_envelope =
      (\<lambda>tp. \<lparr>topic = Defined (JStr tp), type = ''sub'', payload = [], silent = True\<rparr>)"
    by (simp add: subscribe_envelope_def fun_eq_iff)
  have cfg: "subscriptions_or_empty os = (case opt_subscriptions os of None \<Rightarrow> [] | Some xs \<Rightarrow> xs)"
    by (simp add: subscriptions_or_empty_def)
  show "the_queue (queueSubscriptions t) =
     the_queue t @
       map (\<lambda>tp. \<lparr>topic = Defined (JStr tp), type = ''sub'', payload = [], silent = True\<rparr>)
         (subscriptions t)"
    by (simp add: queueSubscriptions_eq the_queue_def env)
  show "subscriptions (queueSubscriptions t) =
      (case opt_subscriptions (opts t) of None \<Rightarrow> [] | Some xs \<Rightarrow> xs)"
    by (simp add: queueSubscriptions_eq subscriptions_or_empty_def)
  assume "constructor os = Inr t0"
  then have "t0 = init_state os"
    by (simp add: constructor_def split: if_splits)
  then have "opts t0 = os \<and> subscriptions t0 = subscriptions_or_empty os"
    by (simp add: init_state_def)
  then have inv: "opts (run evs t0) = os \<and> subscriptions (run evs t0) = subscriptions_or_empty os"
    by (rule configured_run)
  then show "subscriptions (run evs t0) =
      (case opt_subscriptions os of None \<Rightarrow> [] | Some xs \<Rightarrow> xs)"
    by (simp add: cfg)
  from inv show "the_queue (queueSubscriptions (run evs t0)) =
        the_queue (run evs t0) @
          map (\<lambda>tp. \<lparr>topic = Defined (JStr tp), type = ''sub'', payload = [], silent = True\<rparr>)
            (case opt_subscriptions os of None \<Rightarrow> [] | Some xs \<Rightarrow> xs)"
    by (simp add: queueSubscriptions_eq the_queue_def env cfg)
  from inv show "subscriptions (queueSubscriptions (run evs t0)) =
      (case opt_subscriptions os of None \<Rightarrow> [] | Some xs \<Rightarrow> xs)"
    by (simp add: queueSubscriptions_eq cfg)
qed

theorem replay_is_configured_set_witness:
  "constructor example_options = Inr example_transport \<and>
   opt_subscriptions example_options = Some [''a'', ''b''] \<and>
   subscriptions (run three_reconnections example_transport) = [''a'', ''b''] \<and>
   the_queue (queueSubscriptions (run three_reconnections example_transport)) =
     the_queue (run three_reconnections example_transport) @
       [\<lparr>topic = Defined (JStr ''a''), type = ''sub'', payload = [], silent = True\<rparr>,
        \<lparr>topic = Defined (JStr ''b''), type = ''sub'', payload = [], silent = True\<rparr>] \<and>
   transmitted (run three_reconnections example_transport) =
     replicate 4
       [JSON_stringify \<lparr>topic = Defined (JStr ''a''), type = ''sub'', payload = [], silent = True\<rparr>,
        JSON_stringify \<lparr>topic = Defined (JStr ''b''), type = ''sub'', payload = [], silent = True\<rparr>]"
proof -
  have c: "constructor example_options = Inr example_transport"
    by (simp add: constructor_def example_options_def example_transport_def)
  have s: "opt_subscriptions example_options = Some [''a'', ''b'']"
    by (simp add: example_options_def)
  have tr: "transmitted (run three_reconnections example_transport) =
     replicate 4
       [JSON_stringify \<lparr>topic = Defined (JStr ''a''), type = ''sub'', payload = [], silent = True\<rparr>,
        JSON_stringify \<lparr>topic = Defined (JStr ''b''), type = ''sub'', payload = [], silent = True\<rparr>]"
    by code_simp
  note T = replay_is_configured_set [of "run three_reconnections example_transport"
      example_options example_transport three_reconnections]
  from T c have "subscriptions (run three_reconnections example_transport) =
      (case opt_subscriptions example_options of None \<Rightarrow> [] | Some xs \<Rightarrow> xs)"
    by blast
  then have A: "subscriptions (run three_reconnections example_transport) = [''a'', ''b'']"
    by (simp add: s)
  from T c have "the_queue (queueSubscriptions (run three_reconnections example_transport)) =
     the_queue (run three_reconnections example_transport) @
       map (\<lambda>tp. \<lparr>topic = Defined (JStr tp), type = ''sub'', payload = [], silent = True\<rparr>)
         (case opt_subscriptions example_options of None \<Rightarrow> [] | Some xs \<Rightarrow> xs)"
    by blast
  then have B: "the_queue (queueSubscriptions (run three_reconnections example_transport)) =
     the_queue (run three_reconnections example_transport) @
       [\<lparr>topic = Defined (JStr ''a''), type = ''sub'', payload = [], silent = True\<rparr>,
        \<lparr>topic = Defined (JStr ''b''), type = ''sub'', payload = [], silent = True\<rparr>]"
    by (simp add: s)
  from c s A B tr show ?thesis
    by blast
qed

section \<open>Closing\<close>

text \<open>
  Claim C2 says that after \<^verbatim>\<open>close()\<close>, and before any \<^verbatim>\<open>open()\<close>, no automatic connection
  attempt is scheduled any more, also while a pending attempt is in flight.
  \<^verbatim>\<open>_socketClose\<close> only looks at the active connection. Here \<^verbatim>\<open>close()\<close> is called while the
  first attempt is pending: when that attempt fails, its close handler schedules a
  retry, and the timer opens a second connection.
\<close>

theorem close_keeps_retrying_counterexample:
  "timers (run [Call_open, Call_close] example_transport) = 0 \<and>
   ready_states (run [Call_open, Call_close] example_transport) = [0] \<and>
   timers (run [Call_open, Call_close, Ws_close 0] example_transport) = 1 \<and>
   ready_states (run [Call_open, Call_close, Ws_close 0, Timeout] example_transport) = [3, 0]"
  by code_simp

text \<open>
  Claim C2, amended. \<^verbatim>\<open>close()\<close> throws nothing, creates no connection, schedules no timer
  and leaves the pending slot and the queue alone. It replaces the close handler of the
  active connection (one the transport created) by a no-op and closes it; from then on,
  whatever happens to the transport, the close event of that connection schedules no
  retry, clears no pending slot and creates no connection. A pending connection and a
  timer already scheduled are not affected by \<^verbatim>\<open>close()\<close>.
\<close>

theorem close_silences_active_connection:
  "\<not> throws (close_transport t) \<and>
   timers (state_of (close_transport t)) = timers t \<and>
   nextSocket (state_of (close_transport t)) = nextSocket t \<and>
   nsockets (state_of (close_transport t)) = nsockets t \<and>
   the_queue (state_of (close_transport t)) = the_queue t \<and>
   (socket t = Some h \<and> h < nsockets t \<longrightarrow>
      onclose (sockets (state_of (close_transport t)) h) = Noop_handler \<and>
      readyState (sockets (state_of (close_transport t)) h) \<noteq> 0 \<and>
      readyState (sockets (state_of (close_transport t)) h) \<noteq> 1 \<and>
      timers (step (Ws_close h) (run evs (state_of (close_transport t)))) =
        timers (run evs (state_of (close_transport t))) \<and>
      nextSocket (step (Ws_close h) (run evs (state_of (close_transport t)))) =
        nextSocket (run evs (state_of (close_transport t))) \<and>
      nsockets (step (Ws_close h) (run evs (state_of (close_transport t)))) =
        nsockets (run evs (state_of (close_transport t))))"
proof -
  have frame: "timers (socketClose t) = timers t \<and> nextSocket (socketClose t) = nextSocket t \<and>
      nsockets (socketClose t) = nsockets t \<and> the_queue (socketClose t) = the_queue t"
    by (simp add: socketClose_def ws_close_def set_onclose_def set_readyState_def the_queue_def
        split: option.splits)
  have active: "socket t = Some h \<and> h < nsockets t \<longrightarrow>
      onclose (sockets (socketClose t) h) = Noop_handler \<and>
      readyState (sockets (socketClose t) h) \<noteq> 0 \<and>
      readyState (sockets (socketClose t) h) \<noteq> 1 \<and>
      timers (step (Ws_close h) (run evs (socketClose t))) = timers (run evs (socketClose t)) \<and>
      nextSocket (step (Ws_close h) (run evs (socketClose t))) =
        nextSocket (run evs (socketClose t)) \<and>
      nsockets (step (Ws_close h) (run evs (socketClose t))) = nsockets (run evs (socketClose t))"
  proof
    assume h: "socket t = Some h \<and> h < nsockets t"
    then have now: "h < nsockets (socketClose t) \<and>
        onclose (sockets (socketClose t) h) = Noop_handler"
      by (simp add: socketClose_def ws_close_def set_onclose_def set_readyState_def)
    have state: "readyState (sockets (socketClose t) h) \<noteq> 0 \<and>
        readyState (sockets (socketClose t) h) \<noteq> 1"
      using h by (simp add: socketClose_def ws_close_def set_onclose_def set_readyState_def)
    from silenced_run [OF now, of evs]
    have "onclose (sockets (run evs (socketClose t)) h) = Noop_handler"
      by simp
    from silent_close_event [OF this] now state
    show "onclose (sockets (socketClose t) h) = Noop_handler \<and>
      readyState (sockets (socketClose t) h) \<noteq> 0 \<and>
      readyState (sockets (socketClose t) h) \<noteq> 1 \<and>
      timers (step (Ws_close h) (run evs (socketClose t))) = timers (run evs (socketClose t)) \<and>
      nextSocket (step (Ws_close h) (run evs (socketClose t))) =
        nextSocket (run evs (socketClose t)) \<and>
      nsockets (step (Ws_close h) (run evs (socketClose t))) = nsockets (run evs (socketClose t))"
      by blast
  qed
  from frame active show ?thesis
    by (simp add: close_transport_def)
qed

theorem close_silences_active_connection_witness:
  "socket connected_transport = Some 0 \<and> 0 < nsockets connected_transport \<and>
   onclose (sockets connected_transport 0) = Retry_handler \<and>
   onclose (sockets (state_of (close_transport connected_transport)) 0) = Noop_handler \<and>
   timers (step (Ws_close 0)
       (run after_close_history (state_of (close_transport connected_transport)))) =
     timers (run after_close_history (state_of (close_transport connected_transport))) \<and>
   nextSocket (step (Ws_close 0)
       (run after_close_history (state_of (close_transport connected_transport)))) =
     nextSocket (run after_close_history (state_of (close_transport connected_transport)))"
proof -
  have hyp: "socket connected_transport = Some 0 \<and> 0 < nsockets connected_transport"
    by code_simp
  have before: "onclose (sockets connected_transport 0) = Retry_handler"
    by code_simp
  from hyp before
    close_silences_active_connection [of connected_transport 0 after_close_history]
  show ?thesis
    by blast
qed

section \<open>Promoting the pending connection\<close>

text \<open>
  Claim C6 says that a pending connection that fires its open event becomes the active
  connection and receives the replayed subscriptions and the queue. A connection leaves
  the pending slot without being promoted when the retrying close handler of another
  connection runs. Here the second attempt is still connecting when the first connection
  drops. When the second attempt then opens, \<^verbatim>\<open>_socketOpen\<close> copies the empty slot: there is
  no active connection, the open connection is used for nothing, and the replayed
  subscriptions meet no open connection, start a third attempt and are dropped by the
  drain.
\<close>

theorem open_event_of_dropped_attempt:
  "socket (run [Call_open, Ws_open 0, Online, Ws_close 0] example_transport) = Some 0 \<and>
   nextSocket (run [Call_open, Ws_open 0, Online, Ws_close 0] example_transport) = None \<and>
   ready_states (run [Call_open, Ws_open 0, Online, Ws_close 0] example_transport) = [3, 0] \<and>
   socket (run [Call_open, Ws_open 0, Online, Ws_close 0, Ws_open 1] example_transport) = None \<and>
   nextSocket (run [Call_open, Ws_open 0, Online, Ws_close 0, Ws_open 1] example_transport) =
     Some 2 \<and>
   ready_states (run [Call_open, Ws_open 0, Online, Ws_close 0, Ws_open 1] example_transport) =
     [3, 1, 0] \<and>
   the_queue (run [Call_open, Ws_open 0, Online, Ws_close 0, Ws_open 1] example_transport) = [] \<and>
   transmitted (run [Call_open, Ws_open 0, Online, Ws_close 0, Ws_open 1] example_transport) =
     [[JSON_stringify \<lparr>topic = Defined (JStr ''a''), type = ''sub'', payload = [], silent = True\<rparr>,
       JSON_stringify \<lparr>topic = Defined (JStr ''b''), type = ''sub'', payload = [], silent = True\<rparr>],
      [], []]"
  by code_simp

text \<open>
  For the connection that is held in the pending slot the claim holds. When it fires its
  open event, the transport runs, in this order: \<^verbatim>\<open>_socketClose\<close> on the previously active
  connection, if any (its close handler becomes a no-op and it is closed, so that its
  close event schedules no retry and leaves the pending slot alone); the pending
  connection becomes the active one and the slot is cleared; the subscriptions are
  replayed onto the queue; the queue is drained. The new connection being open, the
  drain transmits the queued envelopes followed by the replayed subscriptions, in order,
  and leaves the queue empty; no connection is created and no timer is scheduled.
\<close>

lemma open_event_promotes:
  assumes pending: "nextSocket t = Some h" and created: "h < nsockets t"
    and connecting: "readyState (sockets t h) = 0" and other: "socket t \<noteq> Some h"
    and queued: "list_all (\<lambda>m. serialisable (topic m)) (the_queue t)"
  shows "let t' = step (Ws_open h) t in
     t' = state_of (pushQueue (queueSubscriptions
            ((socketClose (set_readyState h 1 t))\<lparr>socket := Some h, nextSocket := None\<rparr>))) \<and>
     (\<forall>h0. socket t = Some h0 \<longrightarrow>
        onclose (sockets t' h0) = Noop_handler \<and>
        readyState (sockets t' h0) \<noteq> 0 \<and> readyState (sockets t' h0) \<noteq> 1 \<and>
        timers (step (Ws_close h0) t') = timers t' \<and>
        nextSocket (step (Ws_close h0) t') = nextSocket t') \<and>
     socket t' = Some h \<and> nextSocket t' = None \<and> readyState (sockets t' h) = 1 \<and>
     sent (sockets t' h) =
       sent (sockets t h) @
         map JSON_stringify
           (the_queue t @
            map (\<lambda>tp. \<lparr>topic = Defined (JStr tp), type = ''sub'', payload = [], silent = True\<rparr>)
              (subscriptions t)) \<and>
     the_queue t' = [] \<and>
     subscriptions t' = (case opt_subscriptions (opts t) of None \<Rightarrow> [] | Some xs \<Rightarrow> xs) \<and>
     nsockets t' = nsockets t \<and> timers t' = timers t"
proof -
  let ?t1 = "set_readyState h 1 t"
  let ?t2 = "socketClose ?t1"
  let ?t3 = "?t2\<lparr>socket := Some h, nextSocket := None\<rparr>"
  let ?t4 = "queueSubscriptions ?t3"
  let ?t' = "step (Ws_open h) t"
  have t1: "socket ?t1 = socket t" "nextSocket ?t1 = Some h" "readyState (sockets ?t1 h) = 1"
    "sent (sockets ?t1 h) = sent (sockets t h)" "queue ?t1 = queue t" "arrays ?t1 = arrays t"
    "subscriptions ?t1 = subscriptions t" "opts ?t1 = opts t" "nsockets ?t1 = nsockets t"
    "timers ?t1 = timers t" "narrays ?t1 = narrays t"
    using pending by (simp_all add: set_readyState_def)
  from other t1(1) have other1: "socket ?t1 \<noteq> Some h"
    by simp
  note frame = socketClose_frame [of ?t1]
  have h2: "sockets ?t2 h = sockets ?t1 h"
    using other1 by (rule socketClose_other)
  have t': "?t' = state_of (socketOpen ?t1)"
    using created connecting by simp
  have open_eq: "socketOpen ?t1 = pushQueue ?t4"
    using frame t1(2) by (simp add: socketOpen_def Let_def)
  have f4: "socket ?t4 = Some h" "nextSocket ?t4 = None" "sockets ?t4 = sockets ?t2"
    "the_queue ?t4 = the_queue t @ map subscribe_envelope (subscriptions t)"
    "subscriptions ?t4 = subscriptions_or_empty (opts t)" "nsockets ?t4 = nsockets t"
    "timers ?t4 = timers t"
    using frame t1 by (simp_all add: queueSubscriptions_eq the_queue_def)
  have pre: "socket ?t4 = Some h" "readyState (sockets ?t4 h) = 1"
    "list_all (\<lambda>m. serialisable (topic m)) (the_queue ?t4)"
    using h2 t1(3) f4 queued by (auto simp add: subscribe_envelope_def list_all_iff)
  note drained = pushQueue_open [OF pre]
  have final: "?t' = ?t4\<lparr>sockets := (sockets ?t4)(h := (sockets ?t4 h)\<lparr>sent :=
               sent (sockets ?t4 h) @ map JSON_stringify (the_queue ?t4)\<rparr>),
             queue := narrays ?t4,
             arrays := (arrays ?t4)(narrays ?t4 := []),
             narrays := Suc (narrays ?t4)\<rparr>"
    by (simp only: t' open_eq drained state_of.simps)
  have order: "?t' = state_of (pushQueue ?t4)"
    by (simp only: t' open_eq)
  have sent4: "sent (sockets ?t4 h) = sent (sockets t h)"
    using h2 t1(4) f4 by simp
  have slots: "socket ?t' = Some h" "nextSocket ?t' = None" "readyState (sockets ?t' h) = 1"
    unfolding final using pre f4 by simp_all
  have env: "subscribe_envelope =
      (\<lambda>tp. \<lparr>topic = Defined (JStr tp), type = ''sub'', payload = [], silent = True\<rparr>)"
    by (simp add: subscribe_envelope_def fun_eq_iff)
  have sent': "sent (sockets ?t' h) =
       sent (sockets t h) @
         map JSON_stringify
           (the_queue t @
            map (\<lambda>tp. \<lparr>topic = Defined (JStr tp), type = ''sub'', payload = [], silent = True\<rparr>)
              (subscriptions t))"
    unfolding final using f4 sent4 by (simp add: env)
  have rest: "the_queue ?t' = []"
    "subscriptions ?t' = (case opt_subscriptions (opts t) of None \<Rightarrow> [] | Some xs \<Rightarrow> xs)"
    "nsockets ?t' = nsockets t" "timers ?t' = timers t"
    unfolding final using f4 by (simp_all add: the_queue_def subscriptions_or_empty_def)
  have old: "\<forall>h0. socket t = Some h0 \<longrightarrow>
        onclose (sockets ?t' h0) = Noop_handler \<and>
        readyState (sockets ?t' h0) \<noteq> 0 \<and> readyState (sockets ?t' h0) \<noteq> 1 \<and>
        timers (step (Ws_close h0) ?t') = timers ?t' \<and>
        nextSocket (step (Ws_close h0) ?t') = nextSocket ?t'"
  proof (intro allI impI)
    fix h0
    assume h0: "socket t = Some h0"
    with other have ne: "h0 \<noteq> h"
      by auto
    from h0 t1(1) have "socket ?t1 = Some h0"
      by simp
    from socketClose_active [OF this]
    have closed: "onclose (sockets ?t2 h0) = Noop_handler \<and>
        readyState (sockets ?t2 h0) \<noteq> 0 \<and> readyState (sockets ?t2 h0) \<noteq> 1" .
    have same: "sockets ?t' h0 = sockets ?t2 h0"
      unfolding final using ne f4 by simp
    from closed same have silenced: "onclose (sockets ?t' h0) = Noop_handler"
      by simp
    from silent_close_event [OF silenced] closed same
    show "onclose (sockets ?t' h0) = Noop_handler \<and>
        readyState (sockets ?t' h0) \<noteq> 0 \<and> readyState (sockets ?t' h0) \<noteq> 1 \<and>
        timers (step (Ws_close h0) ?t') = timers ?t' \<and>
        nextSocket (step (Ws_close h0) ?t') = nextSocket ?t'"
      by simp
  qed
  from order old slots sent' rest show ?thesis
    unfolding Let_def by blast
qed

section \<open>Draining the queue\<close>

text \<open>
  With an open active connection the drain transmits the whole queue in order
  (\<open>pushQueue_open\<close>). Claim C1 goes further: an envelope that meets a connection that is
  not open during the drain is put back and is still queued after the drain. The code
  takes no copy of the queue: \<^verbatim>\<open>queue\<close> and \<^verbatim>\<open>this._queue\<close> are the same array, the envelope
  is pushed back onto the array being iterated, and line 245 then replaces that array by
  an empty one (\<open>pushQueue_not_open\<close>). In the history below the message sent while
  disconnected is queued; the stale second attempt then opens, the drain runs against
  the third connection, which is still connecting, and afterwards the message is neither
  queued nor transmitted anywhere.
\<close>

theorem drain_discards_requeued:
  "the_queue (run stale_history example_transport) = [example_envelope] \<and>
   transmitted (run stale_history example_transport) =
     [map JSON_stringify [subscribe_envelope ''a'', subscribe_envelope ''b''], [], []] \<and>
   ready_states (run stale_history example_transport) = [3, 0, 0] \<and>
   socket (run (stale_history @ [Ws_open 1]) example_transport) = Some 2 \<and>
   ready_states (run (stale_history @ [Ws_open 1]) example_transport) = [3, 1, 0, 0] \<and>
   the_queue (run (stale_history @ [Ws_open 1]) example_transport) = [] \<and>
   transmitted (run (stale_history @ [Ws_open 1]) example_transport) =
     [map JSON_stringify [subscribe_envelope ''a'', subscribe_envelope ''b''], [], [], []]"
  by code_simp

section \<open>Pending connections\<close>

text \<open>
  \<^verbatim>\<open>_socketCreate\<close> does nothing while the pending slot is occupied.
\<close>

lemma socketCreate_noop: "nextSocket t \<noteq> None \<Longrightarrow> socketCreate t = Done t"
  by (simp add: socketCreate_eq)

text \<open>
  Claim C5 says that at most one pending connection exists at any time. The retrying
  close handler stays on a connection after its promotion, and clears the pending slot
  whichever connection it runs for. Here the active connection drops while a second
  attempt is pending: the slot is cleared although that attempt is still connecting, and
  the retry timer starts a third connection beside it.
\<close>

theorem second_attempt_while_pending:
  "ready_states (run [Call_open, Ws_open 0, Online] example_transport) = [1, 0] \<and>
   nextSocket (run [Call_open, Ws_open 0, Online] example_transport) = Some 1 \<and>
   ready_states (run [Call_open, Ws_open 0, Online, Ws_close 0] example_transport) = [3, 0] \<and>
   nextSocket (run [Call_open, Ws_open 0, Online, Ws_close 0] example_transport) = None \<and>
   timers (run [Call_open, Ws_open 0, Online, Ws_close 0] example_transport) = 1 \<and>
   ready_states (run [Call_open, Ws_open 0, Online, Ws_close 0, Timeout] example_transport) =
     [3, 0, 0] \<and>
   nextSocket (run [Call_open, Ws_open 0, Online, Ws_close 0, Timeout] example_transport) =
     Some 2"
  by code_simp

end
